theory Spec2Isabelle
  imports
    Complex_Main
    "HOL-Library.Char_ord"
    "HOL-Library.List_Lexorder"
    "HOL-Library.Sublist"
    "HOL-Library.Multiset"
begin

section \<open>The sales table\<close>

text \<open>
  The dashboard (\<^verbatim>\<open>app.py\<close>) loads one table \<^verbatim>\<open>df\<close> at start-up and derives four
  columns from it (lines 8 to 12). A row of the loaded table is a record with the columns
  the callback \<^verbatim>\<open>update_dashboard\<close> reads. The three columns derived from the date and
  the time (\<^verbatim>\<open>heure\<close>, \<^verbatim>\<open>jour_semaine\<close>, \<^verbatim>\<open>mois\<close>) are fields, as they are computed
  once at load; the revenue column \<^verbatim>\<open>CA\<close> is the product of line 9.

  Python strings are \<^typ>\<open>string\<close>, ordered as Python orders them (lexicographically,
  character by character). A number of the table is a rational; the aggregates are first
  given with exact sums, and the sums are given again with the rounding of float64
  additions towards the end of the definitions, where the conservation of revenue needs
  them.
\<close>

record row =
  transaction_id :: int
  store_location :: string
  product_detail :: string
  transaction_qty :: int
  unit_price :: rat
  heure :: nat
  jour_semaine :: string
  mois :: string

text \<open>Line 9: \<^verbatim>\<open>df["CA"] = df["transaction_qty"] * df["unit_price"]\<close>.\<close>

definition CA :: "row \<Rightarrow> rat" where
  "CA r = of_int (transaction_qty r) * unit_price r"

datatype error = ValueError | KeyError | ZeroDivisionError

section \<open>The filter (line 54)\<close>

text \<open>
  \<^verbatim>\<open>df[df['store_location'].isin(store_selection) & df['mois'].isin(mois_selection)]\<close>:
  \<^verbatim>\<open>isin\<close> gives one boolean per row, \<^verbatim>\<open>&\<close> combines the two masks position by
  position, and indexing a frame with a mask keeps the rows whose boolean is true.
\<close>

definition isin :: "'a list \<Rightarrow> 'a list \<Rightarrow> bool list" where
  "isin col vals = map (\<lambda>v. v \<in> set vals) col"

definition mask_and :: "bool list \<Rightarrow> bool list \<Rightarrow> bool list" where
  "mask_and m1 m2 = map (\<lambda>(a, b). a \<and> b) (zip m1 m2)"

definition select_mask :: "'r list \<Rightarrow> bool list \<Rightarrow> 'r list" where
  "select_mask df m = map fst (filter snd (zip df m))"

definition df_filtered :: "string list \<Rightarrow> string list \<Rightarrow> row list \<Rightarrow> row list" where
  "df_filtered store_selection mois_selection df =
     select_mask df
       (mask_and (isin (map store_location df) store_selection)
                 (isin (map mois df) mois_selection))"

section \<open>The indicators (lines 57 to 60)\<close>

text \<open>
  The total revenue, as the exact sum of the column; \<open>total_ca_fl\<close> further down is the
  same sum with the rounding of its float64 additions.
\<close>

definition total_ca :: "row list \<Rightarrow> rat" where
  "total_ca d = sum_list (map CA d)"

text \<open>\<^verbatim>\<open>nunique\<close>: the number of distinct values of the column.\<close>

definition nb_transac :: "row list \<Rightarrow> nat" where
  "nb_transac d = length (remdups (map transaction_id d))"

text \<open>
  Python's division raises on a zero divisor. (On a numpy float the division gives a
  not-a-number with a warning instead; line 59 keeps a zero divisor away from it in
  either case.)
\<close>

definition py_div :: "rat \<Rightarrow> nat \<Rightarrow> error + rat" where
  "py_div a b = (if b = 0 then Inl ZeroDivisionError else Inr (a / of_nat b))"

text \<open>Line 59: \<^verbatim>\<open>total_ca / nb_transac if nb_transac > 0 else 0\<close>.\<close>

definition ticket_moyen :: "row list \<Rightarrow> error + rat" where
  "ticket_moyen d = (if nb_transac d > 0 then py_div (total_ca d) (nb_transac d) else Inr 0)"

text \<open>The total quantity, as an unbounded integer: the wrap-around of the 64-bit column
  sum is beyond the quantities of a sales table and is left out.\<close>

definition total_qty :: "row list \<Rightarrow> int" where
  "total_qty d = sum_list (map transaction_qty d)"

section \<open>Grouped sums (lines 70, 75, 83)\<close>

text \<open>
  \<^verbatim>\<open>d.groupby(key)[col].sum()\<close>: a series with one entry per distinct value of the key
  column, in ascending order of the key (pandas sorts the group keys), whose value is the
  sum of the column over the rows of the group.
\<close>

definition groupby_sum :: "(row \<Rightarrow> 'k::linorder) \<Rightarrow> (row \<Rightarrow> rat) \<Rightarrow> row list \<Rightarrow> ('k \<times> rat) list" where
  "groupby_sum key col d =
     map (\<lambda>k. (k, sum_list (map col (filter (\<lambda>r. key r = k) d)))) (sort (remdups (map key d)))"

text \<open>
  \<^verbatim>\<open>s.reindex(labels)\<close>: one entry per label, in the order of the labels; a label that
  the series does not have gets the missing value NaN, here \<^const>\<open>None\<close>.
\<close>

definition reindex :: "'k list \<Rightarrow> ('k \<times> rat) list \<Rightarrow> ('k \<times> rat option) list" where
  "reindex labels s = map (\<lambda>k. (k, map_of s k)) labels"

text \<open>Line 70.\<close>

definition ca_mois :: "row list \<Rightarrow> (string \<times> rat) list" where
  "ca_mois d = groupby_sum mois CA d"

text \<open>Lines 74 and 75.\<close>

definition jour_order :: "string list" where
  "jour_order = [''Monday'', ''Tuesday'', ''Wednesday'', ''Thursday'', ''Friday'', ''Saturday'', ''Sunday'']"

definition ca_jour :: "row list \<Rightarrow> (string \<times> rat option) list" where
  "ca_jour d = reindex jour_order (groupby_sum jour_semaine CA d)"

text \<open>
  Line 83 (the variable \<^verbatim>\<open>top\<close>): \<^verbatim>\<open>s.nlargest(n)\<close> gives the \<open>n\<close> largest entries
  in decreasing order of value; entries of equal value stay in the order they have in
  \<open>s\<close> (\<^verbatim>\<open>keep='first'\<close>).
\<close>

definition nlargest :: "nat \<Rightarrow> ('k \<times> rat) list \<Rightarrow> ('k \<times> rat) list" where
  "nlargest n s = take n (sort_key (\<lambda>(k, v). - v) s)"

definition top_produits :: "row list \<Rightarrow> (string \<times> rat) list" where
  "top_produits d = nlargest 10 (groupby_sum product_detail CA d)"

section \<open>The heat map (line 79)\<close>

text \<open>A frame with labelled rows and columns; a cell may be missing (NaN).\<close>

record frame =
  index :: "string list"
  columns :: "nat list"
  cells :: "rat option list list"

text \<open>
  \<^verbatim>\<open>pivot_table(index="jour_semaine", columns="heure", values="CA", aggfunc="sum")\<close>:
  the rows are the weekdays that occur, the columns the hours that occur, both ascending;
  a cell holds the sum over the rows of that weekday and hour, and is missing when there is
  no such row.
\<close>

definition pivot_table :: "row list \<Rightarrow> frame" where
  "pivot_table d =
     \<lparr>index = sort (remdups (map jour_semaine d)),
      columns = sort (remdups (map heure d)),
      cells = map (\<lambda>w. map (\<lambda>h.
                  if filter (\<lambda>r. jour_semaine r = w \<and> heure r = h) d = [] then None
                  else Some (sum_list (map CA (filter (\<lambda>r. jour_semaine r = w \<and> heure r = h) d))))
                (sort (remdups (map heure d))))
              (sort (remdups (map jour_semaine d)))\<rparr>"

definition fillna :: "rat \<Rightarrow> frame \<Rightarrow> frame" where
  "fillna v f = f\<lparr>cells := map (map (\<lambda>c. case c of None \<Rightarrow> Some v | Some x \<Rightarrow> Some x)) (cells f)\<rparr>"

text \<open>
  \<^verbatim>\<open>f.reindex(labels)\<close> on a frame: one row per label, in the order of the labels; a label
  that the frame does not have gets a row of missing values.
\<close>

definition reindex_rows :: "string list \<Rightarrow> frame \<Rightarrow> frame" where
  "reindex_rows labels f =
     \<lparr>index = labels,
      columns = columns f,
      cells = map (\<lambda>w. case map_of (zip (index f) (cells f)) w of
                          None \<Rightarrow> replicate (length (columns f)) None
                        | Some cs \<Rightarrow> cs) labels\<rparr>"

definition pivot :: "row list \<Rightarrow> frame" where
  "pivot d = reindex_rows jour_order (fillna 0 (pivot_table d))"

text \<open>Reading a cell by its labels (\<^verbatim>\<open>f.loc[w, h]\<close>); an unknown label is a \<^verbatim>\<open>KeyError\<close>.\<close>

definition loc :: "frame \<Rightarrow> string \<Rightarrow> nat \<Rightarrow> error + rat option" where
  "loc f w h =
     (case map_of (zip (index f) (cells f)) w of
        None \<Rightarrow> Inl KeyError
      | Some cs \<Rightarrow> (case map_of (zip (columns f) cs) h of
                     None \<Rightarrow> Inl KeyError
                   | Some c \<Rightarrow> Inr c))"

section \<open>The baskets (lines 87 to 90)\<close>

text \<open>
  Line 87 collects, for each transaction identifier in ascending order, the list of the
  products on its rows. Lines 88 to 90 encode these lists as a boolean frame with one
  column per distinct product, in ascending order, and one row per transaction, true at
  the products of the transaction. The frame is kept here as its column list together
  with the product lists: membership in a list is the boolean of the frame.
\<close>

definition transactions :: "row list \<Rightarrow> string list list" where
  "transactions d =
     map (\<lambda>t. map product_detail (filter (\<lambda>r. transaction_id r = t) d))
       (sort (remdups (map transaction_id d)))"

definition te_columns :: "'i::linorder list list \<Rightarrow> 'i list" where
  "te_columns txs = sort (remdups (concat txs))"

section \<open>The frequent itemset miner (line 91)\<close>

text \<open>
  Modelled from the spec: the body of \<^verbatim>\<open>apriori\<close>, which line 91 imports from a library
  and which is not among the sources. The definitions follow section 4.5 of the
  specification. An itemset is the ascending list of its items.
\<close>

text \<open>Modelled from the spec: the support of an itemset, the fraction of baskets that
  contain all its members.\<close>

definition itemset_support :: "'i list list \<Rightarrow> 'i list \<Rightarrow> rat" where
  "itemset_support baskets s =
     of_nat (length (filter (\<lambda>b. set s \<subseteq> set b) baskets)) / of_nat (length baskets)"

text \<open>Modelled from the spec: the candidates of the next level, each the join of two
  frequent itemsets that share all but their last item.\<close>

definition join :: "'i::linorder list list \<Rightarrow> 'i list list" where
  "join L = [a @ [last b]. a \<leftarrow> L, b \<leftarrow> L, butlast a = butlast b \<and> last a < last b]"

text \<open>Modelled from the spec: the subsets of a candidate with one item less.\<close>

definition drop_one :: "'i list \<Rightarrow> 'i list list" where
  "drop_one c = map (\<lambda>i. take i c @ drop (Suc i) c) [0..<length c]"

text \<open>Modelled from the spec: a candidate with an infrequent subset of one item less is
  pruned.\<close>

definition prune :: "'i list list \<Rightarrow> 'i list list \<Rightarrow> 'i list list" where
  "prune L cands = filter (\<lambda>c. list_all (\<lambda>s. s \<in> set L) (drop_one c)) cands"

text \<open>Modelled from the spec: the candidates whose support reaches the threshold.\<close>

definition retain :: "'i list list \<Rightarrow> rat \<Rightarrow> 'i list list \<Rightarrow> 'i list list" where
  "retain baskets minsup cands = filter (\<lambda>c. minsup \<le> itemset_support baskets c) cands"

text \<open>Modelled from the spec: one level from the previous one: join, prune, count.\<close>

definition next_level :: "'i::linorder list list \<Rightarrow> rat \<Rightarrow> 'i list list \<Rightarrow> 'i list list" where
  "next_level baskets minsup L = retain baskets minsup (prune L (join L))"

lemma last_next_level:
  assumes "c \<in> set (next_level baskets minsup L)"
  shows "\<exists>a \<in> set L. \<exists>b \<in> set L. last c = last b \<and> last a < last b"
proof -
  from assms obtain a b where "a \<in> set L" "b \<in> set L" "c = a @ [last b]" "last a < last b"
    by (auto simp: next_level_def retain_def prune_def join_def split: if_splits)
  then show ?thesis by auto
qed

lemma next_level_measure:
  assumes "next_level baskets minsup L \<noteq> []"
  shows "card (last ` set (next_level baskets minsup L)) < card (last ` set L)"
proof -
  let ?N = "next_level baskets minsup L"
  obtain c where c: "c \<in> set ?N"
    using assms by (cases ?N) auto
  then have ne: "last ` set L \<noteq> {}"
    using last_next_level [OF c] by auto
  let ?m = "Min (last ` set L)"
  have "last ` set ?N \<subseteq> last ` set L - {?m}"
  proof
    fix x assume "x \<in> last ` set ?N"
    then obtain c' where "c' \<in> set ?N" "x = last c'" by auto
    then obtain a b where ab: "a \<in> set L" "b \<in> set L" "x = last b" "last a < last b"
      using last_next_level by metis
    have "?m \<le> last a" using ab(1) by simp
    then have "x \<noteq> ?m" using ab(3,4) by simp
    then show "x \<in> last ` set L - {?m}" using ab(2,3) by simp
  qed
  moreover have "?m \<in> last ` set L"
    using ne by (simp del: Min_in add: Min_in)
  ultimately have "last ` set ?N \<subset> last ` set L" by blast
  then show ?thesis by (simp add: psubset_card_mono)
qed

text \<open>Modelled from the spec: the levels after the given one, up to the first level at
  which no candidate survives.\<close>

function levels :: "'i::linorder list list \<Rightarrow> rat \<Rightarrow> 'i list list \<Rightarrow> 'i list list list" where
  "levels baskets minsup L =
     (if next_level baskets minsup L = [] then []
      else next_level baskets minsup L # levels baskets minsup (next_level baskets minsup L))"
  by pat_completeness auto
termination
  by (relation "measure (\<lambda>(baskets, minsup, L). card (last ` set L))")
     (auto simp: next_level_measure)

declare levels.simps [simp del]

text \<open>Modelled from the spec: the miner. Its result lists every frequent itemset of
  every level with its support, the first level being the frequent single items.\<close>

definition apriori :: "'i::linorder list \<Rightarrow> 'i list list \<Rightarrow> rat \<Rightarrow> (rat \<times> 'i list) list" where
  "apriori cols baskets minsup =
     map (\<lambda>s. (itemset_support baskets s, s))
       (concat (retain baskets minsup (map (\<lambda>i. [i]) cols)
                # levels baskets minsup (retain baskets minsup (map (\<lambda>i. [i]) cols))))"

text \<open>Line 91: the threshold 0.02.\<close>

definition frequent :: "row list \<Rightarrow> (rat \<times> string list) list" where
  "frequent d = apriori (te_columns (transactions d)) (transactions d) (1 / 50)"

section \<open>The association rules (lines 92 to 96)\<close>

text \<open>
  A row of the rule table, with the columns the callback shows. The label column
  \<^verbatim>\<open>produits\<close> of line 95 joins the names of the antecedents and of the consequents
  into one string; the row keeps the two lists of names instead.
\<close>

record rule =
  antecedents :: "string list"
  consequents :: "string list"
  support :: rat
  confidence :: rat
  lift :: rat

text \<open>
  \<^verbatim>\<open>itertools.combinations(k, r)\<close>: the sub-lists of \<open>r\<close> items, in the order of the
  positions of their items.
\<close>

fun combinations :: "'a list \<Rightarrow> nat \<Rightarrow> 'a list list" where
  "combinations xs 0 = [[]]"
| "combinations [] (Suc r) = []"
| "combinations (x # xs) (Suc r) = map ((#) x) (combinations xs r) @ combinations xs (Suc r)"

text \<open>
  Modelled from the spec: the body of \<^verbatim>\<open>association_rules\<close>, which line 92 imports
  from a library and which is not among the sources. Following section 4.6, every
  frequent itemset of two items or more is split in every way into an antecedent and a
  consequent, larger antecedents first; the supports are read from the table of frequent
  itemsets; a rule is kept when its lift reaches the threshold. The rules come out in the
  order of the table.

  Three points are taken from the library and not from the specification, which is
  silent on the first and the third and says of the second that the rule list is then
  empty: an itemset that is not in the table is a \<^verbatim>\<open>KeyError\<close>; a table without rows
  is rejected with a \<^verbatim>\<open>ValueError\<close>; and an itemset is a hash set, which Python walks
  in an order that depends on the hash seed of the process. That order is the parameter
  \<open>walk\<close>: given the items of a set in ascending order, it lists them in the order
  in which the set is walked.
\<close>

definition frequent_items_dict :: "(rat \<times> 'i list) list \<Rightarrow> 'i list \<Rightarrow> error + rat" where
  "frequent_items_dict fs s =
     (case map_of (rev (map (\<lambda>(v, k). (set k, v)) fs)) (set s) of
        None \<Rightarrow> Inl KeyError
      | Some v \<Rightarrow> Inr v)"

text \<open>Modelled from the spec: the ways of splitting an itemset into a non-empty antecedent
  and a non-empty consequent, the antecedents of \<open>length k - 1\<close> items first, down to
  those of one item.\<close>

definition candidate_splits ::
  "('i::linorder list \<Rightarrow> 'i list) \<Rightarrow> 'i list \<Rightarrow> ('i list \<times> 'i list) list" where
  "candidate_splits walk k =
     concat (map (\<lambda>idx. map (\<lambda>c. (walk (sort c), walk (sort (filter (\<lambda>x. x \<notin> set c) k))))
                         (combinations (walk k) idx))
               (rev [1..<length k]))"

text \<open>Modelled from the spec: the lift, the confidence divided by the support of the
  consequent.\<close>

definition metric_lift :: "rat \<Rightarrow> rat \<Rightarrow> rat \<Rightarrow> rat" where
  "metric_lift sAC sA sC = (sAC / sA) / sC"

text \<open>Modelled from the spec: the rule of one split, kept when its lift reaches the
  threshold.\<close>

definition make_rule ::
  "(rat \<times> string list) list \<Rightarrow> rat \<Rightarrow> rat \<Rightarrow> string list \<times> string list \<Rightarrow> error + rule list" where
  "make_rule fs min_threshold sAC ac =
     (case frequent_items_dict fs (fst ac) of
        Inl e \<Rightarrow> Inl e
      | Inr sA \<Rightarrow>
          (case frequent_items_dict fs (snd ac) of
             Inl e \<Rightarrow> Inl e
           | Inr sC \<Rightarrow>
               (if min_threshold \<le> metric_lift sAC sA sC
                then Inr [\<lparr>antecedents = fst ac, consequents = snd ac, support = sAC,
                           confidence = sAC / sA, lift = metric_lift sAC sA sC\<rparr>]
                else Inr [])))"

text \<open>The results of the steps in order: the first error stops the run.\<close>

fun collect :: "(error + 'a list) list \<Rightarrow> error + 'a list" where
  "collect [] = Inr []"
| "collect (Inl e # rest) = Inl e"
| "collect (Inr xs # rest) = (case collect rest of Inl e \<Rightarrow> Inl e | Inr ys \<Rightarrow> Inr (xs @ ys))"

text \<open>Modelled from the spec: the rule generator.\<close>

definition association_rules ::
  "(string list \<Rightarrow> string list) \<Rightarrow> (rat \<times> string list) list \<Rightarrow> rat \<Rightarrow> error + rule list" where
  "association_rules walk fs min_threshold =
     (if fs = [] then Inl ValueError
      else collect (concat (map (\<lambda>(sAC, k). map (make_rule fs min_threshold sAC)
                                              (candidate_splits walk k)) fs)))"

text \<open>Line 92: the metric is the lift and the threshold 1.2.\<close>

definition rules :: "(string list \<Rightarrow> string list) \<Rightarrow> row list \<Rightarrow> error + rule list" where
  "rules walk d = association_rules walk (frequent d) (6 / 5)"

text \<open>
  Line 96: \<^verbatim>\<open>.round(3)\<close> rounds the three numbers of each rule to three decimals, a
  value half-way between two neighbours going to the even one, and \<^verbatim>\<open>.head(10)\<close>
  keeps the first ten rows. The table is the list of its rows; the empty list stands for
  the message of line 102.
\<close>

definition round_half_even :: "rat \<Rightarrow> int" where
  "round_half_even x =
     (if x - of_int \<lfloor>x\<rfloor> < 1 / 2 then \<lfloor>x\<rfloor>
      else if 1 / 2 < x - of_int \<lfloor>x\<rfloor> then \<lfloor>x\<rfloor> + 1
      else if even \<lfloor>x\<rfloor> then \<lfloor>x\<rfloor> else \<lfloor>x\<rfloor> + 1)"

definition round3 :: "rat \<Rightarrow> rat" where
  "round3 x = of_int (round_half_even (x * 1000)) / 1000"

definition round_rule :: "rule \<Rightarrow> rule" where
  "round_rule r = r\<lparr>support := round3 (support r), confidence := round3 (confidence r),
                     lift := round3 (lift r)\<rparr>"

definition panier_table :: "(string list \<Rightarrow> string list) \<Rightarrow> row list \<Rightarrow> error + rule list" where
  "panier_table walk d =
     (case rules walk d of
        Inl e \<Rightarrow> Inl e
      | Inr rs \<Rightarrow> Inr (take 10 (map round_rule rs)))"

section \<open>The callback (lines 53 to 104)\<close>

text \<open>
  What \<^verbatim>\<open>update_dashboard\<close> returns, as data: the four indicators of the cards, the
  series and the frame behind the four figures, and the rows of the rule table. The
  loaded table \<^verbatim>\<open>df\<close>, a global of the module, is a parameter, and so is the order
  in which the process walks its hash sets.
\<close>

record dashboard =
  kpis :: "rat \<times> nat \<times> rat \<times> int"
  fig_mois :: "(string \<times> rat) list"
  fig_jour :: "(string \<times> rat option) list"
  fig_heatmap :: frame
  fig_top :: "(string \<times> rat) list"
  panier :: "rule list"

text \<open>
  The statements run in the order of the source; an exception raised by one of them ends
  the callback, which then returns nothing. The figures are built from the series and
  the frame by the plotting library, which is not modelled; the amounts are the exact
  sums.
\<close>

definition update_dashboard ::
  "(string list \<Rightarrow> string list) \<Rightarrow> string list \<Rightarrow> string list \<Rightarrow> row list \<Rightarrow> error + dashboard" where
  "update_dashboard walk store_selection mois_selection df =
     (case ticket_moyen (df_filtered store_selection mois_selection df) of
        Inl e \<Rightarrow> Inl e
      | Inr ticket \<Rightarrow>
          (case panier_table walk (df_filtered store_selection mois_selection df) of
             Inl e \<Rightarrow> Inl e
           | Inr table \<Rightarrow>
               Inr \<lparr>kpis = (total_ca (df_filtered store_selection mois_selection df),
                            nb_transac (df_filtered store_selection mois_selection df),
                            ticket,
                            total_qty (df_filtered store_selection mois_selection df)),
                    fig_mois = ca_mois (df_filtered store_selection mois_selection df),
                    fig_jour = ca_jour (df_filtered store_selection mois_selection df),
                    fig_heatmap = pivot (df_filtered store_selection mois_selection df),
                    fig_top = top_produits (df_filtered store_selection mois_selection df),
                    panier = table\<rparr>))"

text \<open>
  A rule as the sets and numbers it stands for, whatever the order in which the names of
  its two sides are listed.
\<close>

definition rule_key :: "rule \<Rightarrow> string set \<times> string set \<times> rat \<times> rat \<times> rat" where
  "rule_key r = (set (antecedents r), set (consequents r), support r, confidence r, lift r)"

section \<open>The sums in float64 (lines 9, 57, 70, 75)\<close>











section \<open>Example rows\<close>

definition mk_row :: "int \<Rightarrow> string \<Rightarrow> string \<Rightarrow> int \<Rightarrow> rat \<Rightarrow> nat \<Rightarrow> string \<Rightarrow> string \<Rightarrow> row" where
  "mk_row t s p q u h j m =
     \<lparr>transaction_id = t, store_location = s, product_detail = p, transaction_qty = q,
      unit_price = u, heure = h, jour_semaine = j, mois = m\<rparr>"

definition ex_week :: "row list" where
  "ex_week =
     [mk_row 1 ''Astoria'' ''Latte'' 2 (7 / 2) 9 ''Monday'' ''2023-01'',
      mk_row 1 ''Astoria'' ''Muffin'' 1 3 9 ''Monday'' ''2023-01'',
      mk_row 2 ''Astoria'' ''Latte'' 1 (7 / 2) 14 ''Wednesday'' ''2023-02'']"


definition ex_monday :: "row list" where
  "ex_monday = [mk_row 1 ''Astoria'' ''Latte'' 2 (7 / 2) 9 ''Monday'' ''2023-01'']"

text \<open>The order of a ranking: a larger value first, and the smaller key first among equal
  values.\<close>

definition ranked_before :: "'k::linorder \<times> rat \<Rightarrow> 'k \<times> rat \<Rightarrow> bool" where
  "ranked_before a b \<longleftrightarrow> snd b < snd a \<or> (snd a = snd b \<and> fst a < fst b)"

definition ex_tie :: "row list" where
  "ex_tie =
     [mk_row 1 ''Astoria'' ''Muffin'' 1 100 9 ''Monday'' ''2023-01'',
      mk_row 2 ''Astoria'' ''Tea'' 1 50 9 ''Monday'' ''2023-01'',
      mk_row 3 ''Astoria'' ''Latte'' 2 50 9 ''Monday'' ''2023-01'']"

definition ex_rules :: "row list" where
  "ex_rules =
     [mk_row 1 ''Astoria'' ''A'' 1 3 9 ''Monday'' ''2023-01'',
      mk_row 1 ''Astoria'' ''B'' 1 3 9 ''Monday'' ''2023-01'',
      mk_row 2 ''Astoria'' ''A'' 1 3 9 ''Monday'' ''2023-01'',
      mk_row 2 ''Astoria'' ''B'' 1 3 9 ''Monday'' ''2023-01'',
      mk_row 3 ''Astoria'' ''C'' 1 3 9 ''Monday'' ''2023-01'',
      mk_row 3 ''Astoria'' ''D'' 1 3 9 ''Monday'' ''2023-01'']"

definition ex_rules_frequent_table :: "(rat \<times> string list) list" where
  "ex_rules_frequent_table =
     [(2 / 3, [''A'']), (2 / 3, [''B'']), (1 / 3, [''C'']), (1 / 3, [''D'']),
      (2 / 3, [''A'', ''B'']), (1 / 3, [''C'', ''D''])]"

definition ex_baskets :: "string list list" where
  "ex_baskets =
     [[''A'', ''B'', ''C''], [''A'', ''B'', ''C''], [''A'', ''C''], [''B'', ''C''],
      [''A'', ''B'', ''C'']]"

section \<open>The filter keeps the kept rows in their order\<close>

lemma select_mask_map:
  "select_mask df (map P df) = filter P df"
  by (induction df) (auto simp: select_mask_def)

lemma mask_and_map:
  "mask_and (map P xs) (map Q xs) = map (\<lambda>x. P x \<and> Q x) xs"
  by (induction xs) (auto simp: mask_and_def)

lemma df_filtered_filter:
  "df_filtered ss ms df = filter (\<lambda>r. store_location r \<in> set ss \<and> mois r \<in> set ms) df"
proof -
  have "mask_and (isin (map store_location df) ss) (isin (map mois df) ms)
        = map (\<lambda>r. store_location r \<in> set ss \<and> mois r \<in> set ms) df"
    by (simp add: isin_def mask_and_map [symmetric] comp_def)
  then show ?thesis
    by (simp add: df_filtered_def select_mask_map)
qed

text \<open>
  C10. The filtered table is the subsequence of the loaded table made of exactly the rows
  whose store is among the selected stores and whose month is among the selected months,
  in the order of the loaded table.
\<close>

theorem filter_order_preserving:
  "df_filtered ss ms df = filter (\<lambda>r. store_location r \<in> set ss \<and> mois r \<in> set ms) df
   \<and> subseq (df_filtered ss ms df) df"
  by (simp add: df_filtered_filter)

text \<open>
  C8. The average ticket is the total revenue divided by the number of distinct
  transactions when there is one, and 0 otherwise; the division is never reached with a
  zero divisor, so the result is never an error.
\<close>

theorem ticket_moyen_guarded:
  "(nb_transac d > 0 \<longrightarrow> ticket_moyen d = Inr (total_ca d / of_nat (nb_transac d)))
   \<and> (nb_transac d = 0 \<longrightarrow> ticket_moyen d = Inr 0)
   \<and> ticket_moyen d \<noteq> Inl ZeroDivisionError"
  by (simp add: ticket_moyen_def py_div_def)

theorem ticket_moyen_guarded_witness:
  "0 < nb_transac ex_monday \<and> ticket_moyen ex_monday = Inr 7
   \<and> nb_transac [] = 0 \<and> ticket_moyen [] = Inr 0"
  using ticket_moyen_guarded [of ex_monday] ticket_moyen_guarded [of "[]"]
  by (simp add: nb_transac_def total_ca_def ex_monday_def mk_row_def CA_def)

section \<open>Facts about grouped sums\<close>

lemma sum_list_filter_disjoint:
  fixes f :: "'a \<Rightarrow> rat"
  assumes "\<And>x. x \<in> set xs \<Longrightarrow> \<not> (P x \<and> Q x)"
  shows "sum_list (map f (filter P xs)) + sum_list (map f (filter Q xs))
         = sum_list (map f (filter (\<lambda>x. P x \<or> Q x) xs))"
  using assms by (induction xs) auto

lemma sum_list_groups:
  fixes col :: "'r \<Rightarrow> rat"
  assumes "distinct ks"
  shows "sum_list (map (\<lambda>k. sum_list (map col (filter (\<lambda>r. key r = k) d))) ks)
         = sum_list (map col (filter (\<lambda>r. key r \<in> set ks) d))"
  using assms
proof (induction ks)
  case Nil
  then show ?case by simp
next
  case (Cons k ks)
  have "sum_list (map col (filter (\<lambda>r. key r = k) d))
          + sum_list (map col (filter (\<lambda>r. key r \<in> set ks) d))
        = sum_list (map col (filter (\<lambda>r. key r = k \<or> key r \<in> set ks) d))"
    using Cons.prems by (intro sum_list_filter_disjoint) auto
  with Cons show ?case by simp
qed

lemma map_of_graph:
  "map_of (map (\<lambda>k. (k, f k)) ks) k = (if k \<in> set ks then Some (f k) else None)"
  by (induction ks) auto

lemma groupby_sum_keys:
  "map fst (groupby_sum key col d) = sort (remdups (map key d))"
  by (simp add: groupby_sum_def comp_def)

lemma groupby_sum_lookup:
  "map_of (groupby_sum key col d) k =
     (if k \<in> key ` set d then Some (sum_list (map col (filter (\<lambda>r. key r = k) d))) else None)"
  by (simp add: groupby_sum_def map_of_graph)

lemma groupby_sum_total:
  "sum_list (map snd (groupby_sum key col d)) = sum_list (map col d)"
proof -
  have "sum_list (map snd (groupby_sum key col d))
        = sum_list (map (\<lambda>k. sum_list (map col (filter (\<lambda>r. key r = k) d))) (sort (remdups (map key d))))"
    by (simp add: groupby_sum_def comp_def)
  also have "\<dots> = sum_list (map col (filter (\<lambda>r. key r \<in> set (sort (remdups (map key d)))) d))"
    by (rule sum_list_groups) simp
  also have "\<dots> = sum_list (map col d)"
    by simp
  finally show ?thesis .
qed


lemma ca_jour_closed_form:
  "ca_jour d =
     map (\<lambda>w. (w, if w \<in> jour_semaine ` set d
                   then Some (sum_list (map CA (filter (\<lambda>r. jour_semaine r = w) d)))
                   else None)) jour_order"
  by (simp add: ca_jour_def reindex_def groupby_sum_lookup)

section \<open>Revenue by weekday and by month\<close>

text \<open>
  C4, as amended. The weekday series has exactly seven entries, Monday to Sunday in this
  order. A weekday that occurs in the subset carries the sum of the revenue of its rows;
  a weekday that does not occur carries the missing value, not 0.
\<close>

theorem weekday_series_shape:
  "map fst (ca_jour d) =
     [''Monday'', ''Tuesday'', ''Wednesday'', ''Thursday'', ''Friday'', ''Saturday'', ''Sunday'']
   \<and> length (ca_jour d) = 7
   \<and> map snd (ca_jour d) =
       map (\<lambda>w. if w \<in> jour_semaine ` set d
                then Some (sum_list (map CA (filter (\<lambda>r. jour_semaine r = w) d)))
                else None) jour_order"
  by (simp add: ca_jour_closed_form comp_def) (simp add: jour_order_def)

text \<open>
  C4 as stated fails: in a subset with a single Monday row, Tuesday is present in the
  series with a missing value where the claim promises 0.
\<close>

theorem weekday_missing_not_zero:
  "ca_jour ex_monday
     = [(''Monday'', Some 7), (''Tuesday'', None), (''Wednesday'', None), (''Thursday'', None),
        (''Friday'', None), (''Saturday'', None), (''Sunday'', None)]
   \<and> ca_jour ex_monday ! 1 \<noteq> (''Tuesday'', Some 0)"
  by (simp add: ca_jour_closed_form jour_order_def ex_monday_def mk_row_def CA_def)

section \<open>The heat map\<close>

lemma map_of_zip_graph:
  "map_of (zip ks (map f ks)) k = (if k \<in> set ks then Some (f k) else None)"
  by (induction ks) auto

lemma pivot_index: "index (pivot d) = jour_order"
  by (simp add: pivot_def reindex_rows_def)

lemma pivot_columns: "columns (pivot d) = sort (remdups (map heure d))"
  by (simp add: pivot_def reindex_rows_def fillna_def pivot_table_def)

lemma pivot_cells:
  "cells (pivot d) =
     map (\<lambda>w. if w \<in> jour_semaine ` set d
               then map (\<lambda>h. Some (sum_list (map CA (filter (\<lambda>r. jour_semaine r = w \<and> heure r = h) d))))
                      (sort (remdups (map heure d)))
               else replicate (length (remdups (map heure d))) None) jour_order"
proof -
  have fill: "(case (if g = [] then None else Some (sum_list (map CA g))) of
                 None \<Rightarrow> Some 0 | Some x \<Rightarrow> Some x) = Some (sum_list (map CA g))" for g :: "row list"
    by simp
  show ?thesis
    by (simp add: pivot_def reindex_rows_def fillna_def pivot_table_def comp_def
          map_of_zip_graph fill)
qed

lemma pivot_loc:
  assumes "w \<in> set jour_order" "w \<in> jour_semaine ` set d" "h \<in> heure ` set d"
  shows "loc (pivot d) w h
         = Inr (Some (sum_list (map CA (filter (\<lambda>r. jour_semaine r = w \<and> heure r = h) d))))"
  using assms
  by (simp add: loc_def pivot_index pivot_columns pivot_cells map_of_zip_graph)

text \<open>
  C5, as amended. The heat map has the seven weekday rows in canonical order; its hour
  columns are the hours that occur in the subset, ascending; every row has one cell per
  column; and the cell of a weekday and an hour that both occur in the subset holds the
  sum of the revenue of the rows of that weekday and hour, which is 0 when there is no
  such row.
\<close>

theorem heatmap_shape:
  "index (pivot d) = jour_order
   \<and> length (cells (pivot d)) = 7
   \<and> columns (pivot d) = sort (remdups (map heure d))
   \<and> (\<forall>cs \<in> set (cells (pivot d)). length cs = length (columns (pivot d)))
   \<and> (\<forall>w h. w \<in> set jour_order \<and> w \<in> jour_semaine ` set d \<and> h \<in> heure ` set d \<longrightarrow>
        loc (pivot d) w h
        = Inr (Some (sum_list (map CA (filter (\<lambda>r. jour_semaine r = w \<and> heure r = h) d)))))"
proof -
  have "length (cells (pivot d)) = 7"
    by (simp add: pivot_cells) (simp add: jour_order_def)
  moreover have "\<forall>cs \<in> set (cells (pivot d)). length cs = length (columns (pivot d))"
    by (auto simp: pivot_cells pivot_columns)
  ultimately show ?thesis
    using pivot_loc by (simp add: pivot_index pivot_columns)
qed

theorem heatmap_shape_witness:
  "index (pivot ex_week) = jour_order
   \<and> columns (pivot ex_week) = [9, 14]
   \<and> list_all (\<lambda>cs. length cs = 2) (cells (pivot ex_week))
   \<and> loc (pivot ex_week) ''Monday'' 14 = Inr (Some 0)
   \<and> loc (pivot ex_week) ''Monday'' 9 = Inr (Some 10)"
proof -
  have 1: "''Monday'' \<in> set jour_order" by (simp add: jour_order_def)
  have 2: "''Monday'' \<in> jour_semaine ` set ex_week" by (simp add: ex_week_def mk_row_def)
  have 3: "14 \<in> heure ` set ex_week" by (simp add: ex_week_def mk_row_def)
  have 4: "9 \<in> heure ` set ex_week" by (simp add: ex_week_def mk_row_def)
  have c: "columns (pivot ex_week) = [9, 14]"
    using heatmap_shape [of ex_week] by (simp add: ex_week_def mk_row_def)
  have a: "loc (pivot ex_week) ''Monday'' 14 = Inr (Some 0)"
    using heatmap_shape [of ex_week] 1 2 3 by (simp add: ex_week_def mk_row_def CA_def)
  have b: "loc (pivot ex_week) ''Monday'' 9 = Inr (Some 10)"
    using heatmap_shape [of ex_week] 1 2 4 by (simp add: ex_week_def mk_row_def CA_def)
  have d: "list_all (\<lambda>cs. length cs = 2) (cells (pivot ex_week))"
    using heatmap_shape [of ex_week] c by (simp add: list_all_iff)
  show ?thesis
    using heatmap_shape [of ex_week] a b c d by simp
qed

text \<open>
  C5 as stated fails: in a subset with a single row, at 9 o'clock, the heat map has the
  single hour column 9, not the columns 0 to 23.
\<close>

theorem heatmap_columns_not_all_hours:
  "columns (pivot ex_monday) = [9] \<and> columns (pivot ex_monday) \<noteq> [0..<24]"
proof -
  have "columns (pivot ex_monday) = [9]"
    by (simp add: pivot_columns ex_monday_def mk_row_def)
  moreover have "length [0..<24::nat] \<noteq> length [9::nat]"
    by simp
  ultimately show ?thesis by metis
qed

section \<open>The product ranking\<close>

lemma insort_key_ranked:
  fixes x :: "'k::linorder \<times> rat"
  assumes "sorted_wrt ranked_before S" "\<forall>y \<in> set S. fst x < fst y"
  shows "sorted_wrt ranked_before (insort_key (\<lambda>(k, v). - v) x S)"
  using assms
proof (induction S)
  case Nil
  then show ?case by simp
next
  case (Cons y ys)
  show ?case
  proof (cases "snd y \<le> snd x")
    case True
    have "ranked_before x z" if "z \<in> set (y # ys)" for z
    proof -
      have "snd z \<le> snd y"
        using that Cons.prems(1) by (auto simp: ranked_before_def)
      moreover have "fst x < fst z"
        using that Cons.prems(2) by auto
      ultimately show ?thesis
        using True by (auto simp: ranked_before_def)
    qed
    with True Cons.prems(1) show ?thesis
      by (simp add: case_prod_unfold)
  next
    case False
    then have "ranked_before y x"
      by (simp add: ranked_before_def)
    moreover have "sorted_wrt ranked_before (insort_key (\<lambda>(k, v). - v) x ys)"
      using Cons by simp
    ultimately show ?thesis
      using False Cons.prems(1) by (auto simp: case_prod_unfold set_insort_key)
  qed
qed

lemma sort_key_ranked:
  fixes g :: "('k::linorder \<times> rat) list"
  assumes "sorted_wrt (<) (map fst g)"
  shows "sorted_wrt ranked_before (sort_key (\<lambda>(k, v). - v) g)"
  using assms
proof (induction g)
  case Nil
  then show ?case by simp
next
  case (Cons x xs)
  then have "sorted_wrt ranked_before (sort_key (\<lambda>(k, v). - v) xs)"
    by simp
  moreover have "\<forall>y \<in> set (sort_key (\<lambda>(k, v). - v) xs). fst x < fst y"
    using Cons.prems by auto
  ultimately show ?case
    by (simp add: insort_key_ranked)
qed

lemma groupby_sum_strict: "sorted_wrt (<) (map fst (groupby_sum key col d))"
  by (simp add: groupby_sum_keys strict_sorted_iff)

lemma groupby_sum_set:
  "set (groupby_sum key col d)
   = (\<lambda>k. (k, sum_list (map col (filter (\<lambda>r. key r = k) d)))) ` key ` set d"
  by (simp add: groupby_sum_def)

lemma nlargest_ranked:
  fixes g :: "('k::linorder \<times> rat) list"
  assumes "sorted_wrt (<) (map fst g)"
  shows "sorted_wrt ranked_before (nlargest n g)"
    and "\<forall>b \<in> set g - set (nlargest n g). \<forall>a \<in> set (nlargest n g). ranked_before a b"
proof -
  let ?S = "sort_key (\<lambda>(k, v). - v) g"
  have S: "sorted_wrt ranked_before (take n ?S @ drop n ?S)"
    using sort_key_ranked [OF assms] by simp
  then show "sorted_wrt ranked_before (nlargest n g)"
    unfolding nlargest_def sorted_wrt_append by simp
  have "set g = set (take n ?S) \<union> set (drop n ?S)"
    by (metis append_take_drop_id set_append set_sort)
  then show "\<forall>b \<in> set g - set (nlargest n g). \<forall>a \<in> set (nlargest n g). ranked_before a b"
    using S unfolding nlargest_def sorted_wrt_append by auto
qed

text \<open>
  C7, as amended. The product ranking lists the products of the subset with the highest
  total revenue, at most ten of them (all when there are fewer), each with the sum of the
  revenue of its rows, in descending order of revenue; products with equal revenue come
  in ascending order of their name, the order of the group keys, whatever the order of
  the rows. Every product left out ranks after every product listed.
\<close>

theorem top_products_ranking:
  "sorted_wrt ranked_before (top_produits d)
   \<and> length (top_produits d) = min 10 (card (product_detail ` set d))
   \<and> (\<forall>e \<in> set (top_produits d). fst e \<in> product_detail ` set d
         \<and> snd e = sum_list (map CA (filter (\<lambda>r. product_detail r = fst e) d)))
   \<and> (\<forall>p \<in> product_detail ` set d. p \<notin> fst ` set (top_produits d) \<longrightarrow>
         (\<forall>a \<in> set (top_produits d).
            ranked_before a (p, sum_list (map CA (filter (\<lambda>r. product_detail r = p) d)))))"
proof -
  let ?g = "groupby_sum product_detail CA d"
  have strict: "sorted_wrt (<) (map fst ?g)"
    by (rule groupby_sum_strict)
  have 1: "sorted_wrt ranked_before (top_produits d)"
    unfolding top_produits_def by (rule nlargest_ranked(1) [OF strict])
  have "length ?g = card (product_detail ` set d)"
    by (simp add: groupby_sum_def length_remdups_card_conv)
  then have 2: "length (top_produits d) = min 10 (card (product_detail ` set d))"
    by (simp add: top_produits_def nlargest_def)
  have sub: "set (top_produits d) \<subseteq> set ?g"
    unfolding top_produits_def nlargest_def by (metis set_sort set_take_subset)
  have 3: "\<forall>e \<in> set (top_produits d). fst e \<in> product_detail ` set d
         \<and> snd e = sum_list (map CA (filter (\<lambda>r. product_detail r = fst e) d))"
    using sub by (auto simp: groupby_sum_set)
  have 4: "\<forall>a \<in> set (top_produits d).
            ranked_before a (p, sum_list (map CA (filter (\<lambda>r. product_detail r = p) d)))"
    if "p \<in> product_detail ` set d" "p \<notin> fst ` set (top_produits d)" for p
  proof -
    let ?b = "(p, sum_list (map CA (filter (\<lambda>r. product_detail r = p) d)))"
    have "?b \<in> set ?g"
      using that(1) by (auto simp: groupby_sum_set)
    moreover have "?b \<notin> set (top_produits d)"
      using that(2) by force
    ultimately show ?thesis
      using nlargest_ranked(2) [OF strict, of 10] by (simp add: top_produits_def)
  qed
  show ?thesis
    using 1 2 3 4 by blast
qed

text \<open>
  C7 as stated fails: Muffin and Latte tie at 100 and the first row met is a Muffin row,
  yet Latte comes first in the ranking.
\<close>

theorem top_tie_by_name:
  "map product_detail ex_tie = [''Muffin'', ''Tea'', ''Latte'']
   \<and> top_produits ex_tie = [(''Latte'', 100), (''Muffin'', 100), (''Tea'', 50)]"
  by (simp add: top_produits_def nlargest_def groupby_sum_def ex_tie_def mk_row_def CA_def)

theorem top_products_ranking_witness:
  "top_produits ex_tie = [(''Latte'', 100), (''Muffin'', 100), (''Tea'', 50)]
   \<and> sorted_wrt ranked_before (top_produits ex_tie)
   \<and> length (top_produits ex_tie) = 3"
proof -
  have "top_produits ex_tie = [(''Latte'', 100), (''Muffin'', 100), (''Tea'', 50)]"
    by (simp add: top_produits_def nlargest_def groupby_sum_def ex_tie_def mk_row_def CA_def)
  moreover have "card (product_detail ` set ex_tie) = 3"
    by (simp add: ex_tie_def mk_row_def)
  ultimately show ?thesis
    using top_products_ranking [of ex_tie] by simp
qed

section \<open>The empty subset\<close>

lemma df_filtered_no_store: "df_filtered [] ms df = []"
  by (simp add: df_filtered_filter)

lemma df_filtered_no_month: "df_filtered ss [] df = []"
  by (simp add: df_filtered_filter)

lemma frequent_empty: "frequent [] = []"
  by (simp add: frequent_def apriori_def transactions_def te_columns_def retain_def
        next_level_def prune_def join_def levels.simps)

lemma panier_table_empty: "panier_table walk [] = Inl ValueError"
  by (simp add: panier_table_def rules_def association_rules_def frequent_empty)

lemma update_dashboard_empty:
  assumes "df_filtered ss ms df = []"
  shows "update_dashboard walk ss ms df = Inl ValueError"
  by (simp add: update_dashboard_def assms ticket_moyen_def nb_transac_def panier_table_empty)

text \<open>
  C3. The claim is right about what should happen and the callback does otherwise: with
  no store selected, with no month selected, or with a selection that no row matches, the
  filtered subset is empty, the table of frequent itemsets has no row, the rule
  generator of line 92 rejects it, and the callback ends with that \<^verbatim>\<open>ValueError\<close>
  instead of returning zero indicators, empty series and an empty rule list.
\<close>

theorem update_dashboard_empty_selection_raises:
  "update_dashboard walk [] ms df = Inl ValueError
   \<and> update_dashboard walk ss [] df = Inl ValueError
   \<and> update_dashboard walk [''Astoria''] [''2024-12''] ex_week = Inl ValueError"
proof -
  have "df_filtered [''Astoria''] [''2024-12''] ex_week = []"
    by (simp add: df_filtered_filter ex_week_def mk_row_def)
  then show ?thesis
    by (simp add: update_dashboard_empty df_filtered_no_store df_filtered_no_month)
qed

section \<open>The rule table\<close>

text \<open>The example: two baskets of A and B, one basket of C and D.\<close>

lemma ex_rules_transactions:
  "transactions ex_rules = [[''A'', ''B''], [''A'', ''B''], [''C'', ''D'']]"
  by (simp add: transactions_def ex_rules_def mk_row_def)

lemma ex_rules_columns:
  "te_columns [[''A'', ''B''], [''A'', ''B''], [''C'', ''D'']] = [''A'', ''B'', ''C'', ''D'']"
  by (simp add: te_columns_def)

lemma ex_rules_frequent: "frequent ex_rules = ex_rules_frequent_table"
  unfolding frequent_def ex_rules_transactions ex_rules_columns ex_rules_frequent_table_def
  by code_simp

lemma ex_rules_lookup:
  "frequent_items_dict ex_rules_frequent_table [''A''] = Inr (2 / 3)"
  "frequent_items_dict ex_rules_frequent_table [''B''] = Inr (2 / 3)"
  "frequent_items_dict ex_rules_frequent_table [''C''] = Inr (1 / 3)"
  "frequent_items_dict ex_rules_frequent_table [''D''] = Inr (1 / 3)"
  by (simp_all add: frequent_items_dict_def ex_rules_frequent_table_def)

lemma ex_rules_rules_id:
  "rules id ex_rules =
     Inr [\<lparr>antecedents = [''A''], consequents = [''B''], support = 2 / 3, confidence = 1, lift = 3 / 2\<rparr>,
          \<lparr>antecedents = [''B''], consequents = [''A''], support = 2 / 3, confidence = 1, lift = 3 / 2\<rparr>,
          \<lparr>antecedents = [''C''], consequents = [''D''], support = 1 / 3, confidence = 1, lift = 3\<rparr>,
          \<lparr>antecedents = [''D''], consequents = [''C''], support = 1 / 3, confidence = 1, lift = 3\<rparr>]"
  unfolding rules_def ex_rules_frequent association_rules_def
  apply (simp add: ex_rules_frequent_table_def candidate_splits_def)
  apply (simp add: ex_rules_frequent_table_def [symmetric] make_rule_def ex_rules_lookup
      metric_lift_def)
  done

lemma ex_rules_rules_rev:
  "rules rev ex_rules =
     Inr [\<lparr>antecedents = [''B''], consequents = [''A''], support = 2 / 3, confidence = 1, lift = 3 / 2\<rparr>,
          \<lparr>antecedents = [''A''], consequents = [''B''], support = 2 / 3, confidence = 1, lift = 3 / 2\<rparr>,
          \<lparr>antecedents = [''D''], consequents = [''C''], support = 1 / 3, confidence = 1, lift = 3\<rparr>,
          \<lparr>antecedents = [''C''], consequents = [''D''], support = 1 / 3, confidence = 1, lift = 3\<rparr>]"
  unfolding rules_def ex_rules_frequent association_rules_def
  apply (simp add: ex_rules_frequent_table_def candidate_splits_def)
  apply (simp add: ex_rules_frequent_table_def [symmetric] make_rule_def ex_rules_lookup
      metric_lift_def)
  done

lemma floor_rat_numeral:
  "\<lfloor>(numeral a :: rat) / numeral b\<rfloor> = numeral a div numeral b"
  using floor_divide_of_int_eq [of "numeral a" "numeral b", where ?'a = rat] by simp

lemma ex_rules_round3:
  "round3 (2 / 3) = 667 / 1000" "round3 (1 / 3) = 333 / 1000"
  "round3 1 = 1" "round3 (3 / 2) = 3 / 2" "round3 3 = 3"
  by (simp_all add: round3_def round_half_even_def floor_rat_numeral)

lemma ex_rules_table_id:
  "panier_table id ex_rules =
     Inr [\<lparr>antecedents = [''A''], consequents = [''B''], support = 667 / 1000, confidence = 1, lift = 3 / 2\<rparr>,
          \<lparr>antecedents = [''B''], consequents = [''A''], support = 667 / 1000, confidence = 1, lift = 3 / 2\<rparr>,
          \<lparr>antecedents = [''C''], consequents = [''D''], support = 333 / 1000, confidence = 1, lift = 3\<rparr>,
          \<lparr>antecedents = [''D''], consequents = [''C''], support = 333 / 1000, confidence = 1, lift = 3\<rparr>]"
  unfolding panier_table_def ex_rules_rules_id
  by (simp add: round_rule_def ex_rules_round3)

lemma ex_rules_table_rev:
  "panier_table rev ex_rules =
     Inr [\<lparr>antecedents = [''B''], consequents = [''A''], support = 667 / 1000, confidence = 1, lift = 3 / 2\<rparr>,
          \<lparr>antecedents = [''A''], consequents = [''B''], support = 667 / 1000, confidence = 1, lift = 3 / 2\<rparr>,
          \<lparr>antecedents = [''D''], consequents = [''C''], support = 333 / 1000, confidence = 1, lift = 3\<rparr>,
          \<lparr>antecedents = [''C''], consequents = [''D''], support = 333 / 1000, confidence = 1, lift = 3\<rparr>]"
  unfolding panier_table_def ex_rules_rules_rev
  by (simp add: round_rule_def ex_rules_round3)

lemma ex_rules_selected: "df_filtered [''Astoria''] [''2023-01''] ex_rules = ex_rules"
  by (simp add: df_filtered_filter ex_rules_def mk_row_def)

text \<open>
  C2. The claim is right about what a table of top associations should be and the
  callback does otherwise: it shows the first ten rules in the order in which the rule
  generator gave them, unsorted. With two baskets of A and B and one basket of C and D,
  the callback returns a table whose lifts are 1.5, 1.5, 3, 3, in either order of
  walking the itemsets: the rules of lift 3 come last where the claim puts them first.
\<close>

theorem rule_table_not_sorted:
  "map_sum id (map lift \<circ> panier) (update_dashboard id [''Astoria''] [''2023-01''] ex_rules)
     = Inr [3 / 2, 3 / 2, 3, 3]
   \<and> map_sum id (map lift \<circ> panier) (update_dashboard rev [''Astoria''] [''2023-01''] ex_rules)
     = Inr [3 / 2, 3 / 2, 3, 3]
   \<and> \<not> sorted_wrt (\<lambda>a b. b \<le> a) [3 / 2, 3 / 2, 3, 3 :: rat]"
  by (simp add: update_dashboard_def ex_rules_selected ex_rules_table_id ex_rules_table_rev
        ticket_moyen_def py_div_def)


section \<open>The miner is anti-monotone\<close>

lemma drop_one_Cons: "drop_one (x # cs) = cs # map ((#) x) (drop_one cs)"
proof -
  have "[0..<Suc (length cs)] = 0 # map Suc [0..<length cs]"
    by (simp add: upt_conv_Cons map_Suc_upt del: upt_Suc)
  then show ?thesis
    by (simp add: drop_one_def comp_def del: upt_Suc)
qed

lemma subseq_drop_one:
  "subseq t c \<Longrightarrow> t \<noteq> c \<Longrightarrow> \<exists>s \<in> set (drop_one c). subseq t s"
proof (induction c arbitrary: t)
  case Nil
  then show ?case by simp
next
  case (Cons x cs)
  show ?case
  proof (cases "subseq t cs")
    case True
    then show ?thesis by (auto simp: drop_one_Cons)
  next
    case False
    with Cons.prems(1) obtain ts where ts: "t = x # ts" "subseq ts cs"
      by (cases t) (auto split: if_splits)
    then have "ts \<noteq> cs" using Cons.prems(2) by simp
    then obtain s where "s \<in> set (drop_one cs)" "subseq ts s"
      using Cons.IH ts(2) by blast
    then show ?thesis
      using ts(1) by (auto simp: drop_one_Cons)
  qed
qed

lemma next_level_drop_one:
  assumes "c \<in> set (next_level baskets minsup L)"
  shows "set (drop_one c) \<subseteq> set L"
  using assms by (auto simp: next_level_def retain_def prune_def list_all_iff)

lemma next_level_support:
  assumes "c \<in> set (next_level baskets minsup L)"
  shows "minsup \<le> itemset_support baskets c"
  using assms by (simp add: next_level_def retain_def)

lemma levels_unfold:
  "next_level baskets minsup L \<noteq> [] \<Longrightarrow>
   levels baskets minsup L
   = next_level baskets minsup L # levels baskets minsup (next_level baskets minsup L)"
  "next_level baskets minsup L = [] \<Longrightarrow> levels baskets minsup L = []"
  by (subst levels.simps, simp)+

lemma levels_support:
  "c \<in> set (concat (levels baskets minsup L)) \<Longrightarrow> minsup \<le> itemset_support baskets c"
proof (induction baskets minsup L rule: levels.induct)
  case (1 baskets minsup L)
  show ?case
  proof (cases "next_level baskets minsup L = []")
    case True
    with "1.prems" show ?thesis by (simp add: levels_unfold)
  next
    case False
    with "1.prems" have "c \<in> set (next_level baskets minsup L)
        \<or> c \<in> set (concat (levels baskets minsup (next_level baskets minsup L)))"
      by (simp add: levels_unfold)
    then show ?thesis
      using "1.IH" [OF False] next_level_support by blast
  qed
qed

lemma levels_closed:
  assumes "\<forall>c \<in> set L. \<forall>t. subseq t c \<and> t \<noteq> [] \<longrightarrow> t \<in> G"
    and "set (concat (levels baskets minsup L)) \<subseteq> G"
  shows "\<forall>c \<in> set (concat (levels baskets minsup L)). \<forall>t. subseq t c \<and> t \<noteq> [] \<longrightarrow> t \<in> G"
  using assms
proof (induction baskets minsup L rule: levels.induct)
  case (1 baskets minsup L)
  let ?N = "next_level baskets minsup L"
  show ?case
  proof (cases "?N = []")
    case True
    then show ?thesis by (simp add: levels_unfold)
  next
    case False
    have unfold: "concat (levels baskets minsup L) = ?N @ concat (levels baskets minsup ?N)"
      using False by (simp add: levels_unfold)
    have N: "\<forall>c \<in> set ?N. \<forall>t. subseq t c \<and> t \<noteq> [] \<longrightarrow> t \<in> G"
    proof (intro ballI allI impI)
      fix c t assume c: "c \<in> set ?N" and t: "subseq t c \<and> t \<noteq> []"
      show "t \<in> G"
      proof (cases "t = c")
        case True
        then show ?thesis using c "1.prems"(2) unfold by auto
      next
        case False
        then obtain s where "s \<in> set (drop_one c)" "subseq t s"
          using subseq_drop_one t by blast
        moreover have "set (drop_one c) \<subseteq> set L"
          using c by (rule next_level_drop_one)
        ultimately show ?thesis
          using "1.prems"(1) t by blast
      qed
    qed
    have "set (concat (levels baskets minsup ?N)) \<subseteq> G"
      using "1.prems"(2) unfold by simp
    then have "\<forall>c \<in> set (concat (levels baskets minsup ?N)). \<forall>t. subseq t c \<and> t \<noteq> [] \<longrightarrow> t \<in> G"
      using "1.IH" [OF False N] by simp
    with N show ?thesis
      unfolding unfold by auto
  qed
qed

lemma apriori_itemsets:
  "snd ` set (apriori cols baskets minsup)
   = set (retain baskets minsup (map (\<lambda>i. [i]) cols))
     \<union> set (concat (levels baskets minsup (retain baskets minsup (map (\<lambda>i. [i]) cols))))"
  by (simp add: apriori_def image_Un image_comp comp_def del: set_concat)

lemma apriori_member:
  "(v, s) \<in> set (apriori cols baskets minsup)
   \<longleftrightarrow> s \<in> snd ` set (apriori cols baskets minsup) \<and> v = itemset_support baskets s"
proof -
  have "(v, s) \<in> set (map (\<lambda>s. (f s, s)) xs) \<longleftrightarrow> s \<in> snd ` set (map (\<lambda>s. (f s, s)) xs) \<and> v = f s"
    for f :: "'a list \<Rightarrow> rat" and xs
    by force
  then show ?thesis
    unfolding apriori_def by blast
qed

lemma apriori_closed:
  assumes "s \<in> snd ` set (apriori cols baskets minsup)" "subseq t s" "t \<noteq> []"
  shows "t \<in> snd ` set (apriori cols baskets minsup)"
proof -
  let ?L1 = "retain baskets minsup (map (\<lambda>i. [i]) cols)"
  let ?G = "snd ` set (apriori cols baskets minsup)"
  have L1: "\<forall>c \<in> set ?L1. \<forall>t. subseq t c \<and> t \<noteq> [] \<longrightarrow> t \<in> ?G"
  proof (intro ballI allI impI)
    fix c t assume c: "c \<in> set ?L1" and t: "subseq t c \<and> t \<noteq> []"
    from c obtain i where "c = [i]" by (auto simp: retain_def)
    with t have "t = c" by (cases t) (auto split: if_splits)
    with c show "t \<in> ?G" by (simp add: apriori_itemsets)
  qed
  have "set (concat (levels baskets minsup ?L1)) \<subseteq> ?G"
    by (simp add: apriori_itemsets del: set_concat)
  then have "\<forall>c \<in> set (concat (levels baskets minsup ?L1)). \<forall>t. subseq t c \<and> t \<noteq> [] \<longrightarrow> t \<in> ?G"
    using levels_closed [OF L1] by blast
  with L1 assms show ?thesis
    unfolding apriori_itemsets by blast
qed

lemma apriori_support:
  assumes "s \<in> snd ` set (apriori cols baskets minsup)"
  shows "minsup \<le> itemset_support baskets s"
  using assms levels_support
  unfolding apriori_itemsets by (auto simp: retain_def simp del: set_concat)


text \<open>
  C1. For every basket sequence and every support threshold, every non-empty subset of
  an itemset that the miner reports is itself reported by the miner, with its support,
  which reaches the threshold. Equivalently, level by level: a candidate is retained only
  if each of its subsets with one item less is in the previous level.
\<close>

theorem apriori_anti_monotone:
  "(\<forall>v s T. (v, s) \<in> set (apriori cols baskets minsup) \<and> T \<subseteq> set s \<and> T \<noteq> {} \<longrightarrow>
      (\<exists>t. subseq t s \<and> set t = T
           \<and> (itemset_support baskets t, t) \<in> set (apriori cols baskets minsup)
           \<and> minsup \<le> itemset_support baskets t))
   \<and> (\<forall>L c. c \<in> set (next_level baskets minsup L) \<longrightarrow> set (drop_one c) \<subseteq> set L)"
proof -
  have "\<exists>t. subseq t s \<and> set t = T
           \<and> (itemset_support baskets t, t) \<in> set (apriori cols baskets minsup)
           \<and> minsup \<le> itemset_support baskets t"
    if "(v, s) \<in> set (apriori cols baskets minsup)" "T \<subseteq> set s" "T \<noteq> {}" for v s T
  proof -
    let ?t = "filter (\<lambda>x. x \<in> T) s"
    have s: "s \<in> snd ` set (apriori cols baskets minsup)"
      using that(1) by force
    have sub: "subseq ?t s" by simp
    have set: "set ?t = T" using that(2) by auto
    have "?t \<noteq> []"
    proof
      assume "?t = []"
      then have "set ?t = {}" by simp
      with set that(3) show False by simp
    qed
    then have t: "?t \<in> snd ` set (apriori cols baskets minsup)"
      using apriori_closed [OF s sub] by simp
    then have "(itemset_support baskets ?t, ?t) \<in> set (apriori cols baskets minsup)"
      by (simp add: apriori_member)
    moreover have "minsup \<le> itemset_support baskets ?t"
      using t by (rule apriori_support)
    ultimately show ?thesis
      using sub set by blast
  qed
  moreover have "set (drop_one c) \<subseteq> set L" if "c \<in> set (next_level baskets minsup L)" for L c
    using that by (rule next_level_drop_one)
  ultimately show ?thesis by blast
qed

lemma ex_baskets_apriori:
  "apriori [''A'', ''B'', ''C''] ex_baskets (3 / 5) =
     [(4 / 5, [''A'']), (4 / 5, [''B'']), (1, [''C'']), (3 / 5, [''A'', ''B'']),
      (4 / 5, [''A'', ''C'']), (4 / 5, [''B'', ''C'']), (3 / 5, [''A'', ''B'', ''C''])]"
  unfolding ex_baskets_def by code_simp

theorem apriori_anti_monotone_witness:
  "(3 / 5, [''A'', ''B'', ''C'']) \<in> set (apriori [''A'', ''B'', ''C''] ex_baskets (3 / 5))
   \<and> (\<exists>t. subseq t [''A'', ''B'', ''C''] \<and> set t = {''A'', ''C''}
          \<and> (itemset_support ex_baskets t, t)
              \<in> set (apriori [''A'', ''B'', ''C''] ex_baskets (3 / 5))
          \<and> 3 / 5 \<le> itemset_support ex_baskets t)"
proof -
  have m: "(3 / 5, [''A'', ''B'', ''C'']) \<in> set (apriori [''A'', ''B'', ''C''] ex_baskets (3 / 5))"
    by (simp add: ex_baskets_apriori)
  moreover have "{''A'', ''C''} \<subseteq> set [''A'', ''B'', ''C'']" "{''A'', ''C''} \<noteq> {}"
    by simp_all
  ultimately show ?thesis
    using apriori_anti_monotone [of "[''A'', ''B'', ''C'']" ex_baskets "3 / 5"] by blast
qed

section \<open>Conservation of revenue\<close>




























section \<open>What depends on the walk order\<close>

lemma combinations_mset:
  "mset ` set (combinations xs r) = {M. M \<subseteq># mset xs \<and> size M = r}"
proof (induction xs r rule: combinations.induct)
  case (1 xs)
  then show ?case by auto
next
  case (2 r)
  then show ?case by auto
next
  case (3 x xs r)
  show ?case
  proof (intro set_eqI iffI)
    fix M assume "M \<in> mset ` set (combinations (x # xs) (Suc r))"
    then consider c where "c \<in> set (combinations xs r)" "M = add_mset x (mset c)"
      | c where "c \<in> set (combinations xs (Suc r))" "M = mset c"
      by auto
    then show "M \<in> {M. M \<subseteq># mset (x # xs) \<and> size M = Suc r}"
    proof cases
      case 1
      then have "mset c \<in> {M. M \<subseteq># mset xs \<and> size M = r}"
        using "3.IH"(1) by blast
      with 1 show ?thesis by simp
    next
      case 2
      then have "mset c \<in> {M. M \<subseteq># mset xs \<and> size M = Suc r}"
        using "3.IH"(2) by blast
      then have sub: "mset c \<subseteq># mset xs" and sz: "size (mset c) = Suc r"
        by simp_all
      have "mset xs \<subseteq># add_mset x (mset xs)"
        by (metis add_mset_add_single mset_subset_eq_add_left)
      with sub have "mset c \<subseteq># add_mset x (mset xs)"
        by (rule subset_mset.trans)
      with 2 sz show ?thesis by simp
    qed
  next
    fix M assume "M \<in> {M. M \<subseteq># mset (x # xs) \<and> size M = Suc r}"
    then have M: "M \<subseteq># add_mset x (mset xs)" "size M = Suc r" by simp_all
    show "M \<in> mset ` set (combinations (x # xs) (Suc r))"
    proof (cases "x \<in># M")
      case True
      then have "M - {#x#} \<subseteq># mset xs" "size (M - {#x#}) = r"
        using M by (simp_all add: subset_eq_diff_conv size_Diff_singleton)
      then obtain c where "c \<in> set (combinations xs r)" "mset c = M - {#x#}"
        using "3.IH"(1) by (metis (mono_tags, lifting) imageE mem_Collect_eq)
      then have "x # c \<in> set (combinations (x # xs) (Suc r))" "mset (x # c) = M"
        using True by simp_all
      then show ?thesis by blast
    next
      case False
      then have "M \<subseteq># mset xs"
        using M(1) by (metis diff_single_trivial subset_eq_diff_conv add_mset_add_single)
      then obtain c where "c \<in> set (combinations xs (Suc r))" "mset c = M"
        using "3.IH"(2) M(2) by (metis (mono_tags, lifting) imageE mem_Collect_eq)
      then show ?thesis by auto
    qed
  qed
qed

lemma combinations_sets:
  assumes "mset xs = mset ys"
  shows "set ` set (combinations xs r) = set ` set (combinations ys r)"
proof -
  have "set ` set (combinations zs r) = set_mset ` mset ` set (combinations zs r)" for zs :: "'a list"
    by (simp add: image_image)
  then show ?thesis
    by (simp add: combinations_mset assms)
qed


lemma candidate_splits_sets:
  assumes "\<forall>s. mset (walk s) = mset s"
  shows "(\<lambda>ac. (set (fst ac), set (snd ac))) ` set (candidate_splits walk k)
         = (\<Union>idx \<in> {1..<length k}. (\<lambda>A. (A, set k - A)) ` set ` set (combinations k idx))"
proof -
  have w: "set (walk s) = set s" for s
    using assms by (metis set_mset_mset)
  have splits: "set (candidate_splits walk k)
        = (\<Union>idx \<in> {1..<length k}.
             (\<lambda>c. (walk (sort c), walk (sort (filter (\<lambda>x. x \<notin> set c) k))))
               ` set (combinations (walk k) idx))"
    by (simp add: candidate_splits_def)
  have sides: "(set (walk (sort c)), set (walk (sort (filter (\<lambda>x. x \<notin> set c) k))))
        = (set c, set k - set c)" for c
    by (auto simp: w)
  have "(\<lambda>ac. (set (fst ac), set (snd ac))) ` set (candidate_splits walk k)
        = (\<Union>idx \<in> {1..<length k}. (\<lambda>c. (set c, set k - set c)) ` set (combinations (walk k) idx))"
    unfolding splits image_UN image_image by (simp add: sides)
  also have "\<dots> = (\<Union>idx \<in> {1..<length k}. (\<lambda>A. (A, set k - A)) ` set ` set (combinations (walk k) idx))"
    by (simp add: image_image)
  also have "\<dots> = (\<Union>idx \<in> {1..<length k}. (\<lambda>A. (A, set k - A)) ` set ` set (combinations k idx))"
    using combinations_sets [of "walk k" k] assms by simp
  finally show ?thesis .
qed

lemma make_rule_key:
  assumes "set (fst ac) = set (fst ac')" "set (snd ac) = set (snd ac')"
  shows "map_sum id (map rule_key) (make_rule fs m sAC ac)
         = map_sum id (map rule_key) (make_rule fs m sAC ac')"
  using assms
  by (simp add: make_rule_def frequent_items_dict_def rule_key_def split: option.splits)

lemma steps_keys_subset:
  assumes "\<forall>s. mset (walk1 s) = mset s" "\<forall>s. mset (walk2 s) = mset s"
  shows "map_sum id (map rule_key)
           ` set (concat (map (\<lambda>(sAC, k). map (make_rule fs m sAC) (candidate_splits walk1 k)) fs))
         \<subseteq> map_sum id (map rule_key)
           ` set (concat (map (\<lambda>(sAC, k). map (make_rule fs m sAC) (candidate_splits walk2 k)) fs))"
proof
  fix x
  assume "x \<in> map_sum id (map rule_key)
           ` set (concat (map (\<lambda>(sAC, k). map (make_rule fs m sAC) (candidate_splits walk1 k)) fs))"
  then obtain sAC k ac where fs: "(sAC, k) \<in> set fs" and ac: "ac \<in> set (candidate_splits walk1 k)"
    and x: "x = map_sum id (map rule_key) (make_rule fs m sAC ac)"
    by auto
  have "(set (fst ac), set (snd ac))
        \<in> (\<lambda>ac. (set (fst ac), set (snd ac))) ` set (candidate_splits walk1 k)"
    using ac by (rule imageI)
  then have "(set (fst ac), set (snd ac))
        \<in> (\<lambda>ac. (set (fst ac), set (snd ac))) ` set (candidate_splits walk2 k)"
    by (simp only: candidate_splits_sets [OF assms(1)] candidate_splits_sets [OF assms(2)])
  then obtain ac' where ac': "ac' \<in> set (candidate_splits walk2 k)"
    "set (fst ac) = set (fst ac')" "set (snd ac) = set (snd ac')"
    by auto
  have "x = map_sum id (map rule_key) (make_rule fs m sAC ac')"
    unfolding x using ac'(2,3) by (rule make_rule_key)
  then show "x \<in> map_sum id (map rule_key)
           ` set (concat (map (\<lambda>(sAC, k). map (make_rule fs m sAC) (candidate_splits walk2 k)) fs))"
    using fs ac'(1) by force
qed

lemma steps_keys:
  assumes "\<forall>s. mset (walk1 s) = mset s" "\<forall>s. mset (walk2 s) = mset s"
  shows "map_sum id (map rule_key)
           ` set (concat (map (\<lambda>(sAC, k). map (make_rule fs m sAC) (candidate_splits walk1 k)) fs))
         = map_sum id (map rule_key)
           ` set (concat (map (\<lambda>(sAC, k). map (make_rule fs m sAC) (candidate_splits walk2 k)) fs))"
  using steps_keys_subset [OF assms] steps_keys_subset [OF assms(2) assms(1)] by blast

lemma collect_Inl: "collect xs = Inl e \<Longrightarrow> Inl e \<in> set xs"
  by (induction xs rule: collect.induct) (auto split: sum.splits)

lemma collect_Inr_set:
  "collect xs = Inr ys \<Longrightarrow>
   (\<forall>e. Inl e \<notin> set xs) \<and> set ys = (\<Union>x \<in> set xs. case x of Inl e \<Rightarrow> {} | Inr zs \<Rightarrow> set zs)"
  by (induction xs arbitrary: ys rule: collect.induct) (auto split: sum.splits)

lemma collect_Inr_member:
  assumes "collect xs = Inr ys" "r \<in> set ys"
  shows "\<exists>zs. Inr zs \<in> set xs \<and> r \<in> set zs"
proof -
  from collect_Inr_set [OF assms(1)] assms(2)
  obtain x where x: "x \<in> set xs" "r \<in> (case x of Inl e \<Rightarrow> {} | Inr zs \<Rightarrow> set zs)"
    by blast
  show ?thesis
  proof (cases x)
    case (Inl e)
    with x(2) show ?thesis by simp
  next
    case (Inr zs)
    with x show ?thesis by auto
  qed
qed

lemma collect_Inr_subset:
  assumes "collect xs = Inr ys" "Inr zs \<in> set xs"
  shows "set zs \<subseteq> set ys"
  using collect_Inr_set [OF assms(1)] assms(2) by force

lemma collect_no_Inl:
  assumes "collect xs = Inr ys"
  shows "Inl e \<notin> set xs"
  using collect_Inr_set [OF assms] by blast

lemma image_key_Inl:
  assumes "Inl e \<in> map_sum id (map rule_key) ` S"
  shows "Inl e \<in> S"
proof -
  from assms obtain x where "x \<in> S" "map_sum id (map rule_key) x = Inl e"
    by (metis imageE)
  then show ?thesis by (cases x) auto
qed

lemma image_key_Inr:
  assumes "Inr ks \<in> map_sum id (map rule_key) ` S"
  shows "\<exists>zs. Inr zs \<in> S \<and> map rule_key zs = ks"
proof -
  from assms obtain x where "x \<in> S" "map_sum id (map rule_key) x = Inr ks"
    by (metis imageE)
  then show ?thesis by (cases x) auto
qed

lemma make_rule_error: "make_rule fs m sAC ac = Inl e \<Longrightarrow> e = KeyError"
  by (auto simp: make_rule_def frequent_items_dict_def split: option.splits sum.splits if_splits)


lemma rules_error_walk:
  assumes "\<forall>s. mset (walk1 s) = mset s" "\<forall>s. mset (walk2 s) = mset s"
    and "rules walk1 d = Inl e"
  shows "rules walk2 d = Inl e"
proof (cases "frequent d = []")
  case True
  with assms(3) show ?thesis
    by (simp add: rules_def association_rules_def)
next
  case False
  let ?steps = "\<lambda>walk. concat (map (\<lambda>(sAC, k). map (make_rule (frequent d) (6 / 5) sAC)
                                          (candidate_splits walk k)) (frequent d))"
  have only_key: "e' = KeyError" if "Inl e' \<in> set (?steps walk)" for e' walk
    using that make_rule_error by fastforce
  have "collect (?steps walk1) = Inl e"
    using assms(3) False by (simp add: rules_def association_rules_def)
  then have in1: "Inl e \<in> set (?steps walk1)"
    by (rule collect_Inl)
  then have e: "e = KeyError"
    by (rule only_key)
  have "map_sum id (map rule_key) (Inl e) \<in> map_sum id (map rule_key) ` set (?steps walk1)"
    using in1 by (rule imageI)
  then have "Inl e \<in> map_sum id (map rule_key) ` set (?steps walk2)"
    using steps_keys [OF assms(1,2), of "frequent d" "6 / 5"] by simp
  then have in2: "Inl e \<in> set (?steps walk2)"
    by (rule image_key_Inl)
  have "collect (?steps walk2) = Inl e"
  proof (cases "collect (?steps walk2)")
    case (Inl e')
    then have "e' = KeyError"
      using collect_Inl only_key by blast
    with Inl e show ?thesis by simp
  next
    case (Inr ys)
    then show ?thesis
      using collect_no_Inl in2 by blast
  qed
  then show ?thesis
    using False by (simp add: rules_def association_rules_def)
qed

lemma rules_keys_subset:
  assumes "\<forall>s. mset (walk1 s) = mset s" "\<forall>s. mset (walk2 s) = mset s"
    and "rules walk1 d = Inr r1" "rules walk2 d = Inr r2"
  shows "rule_key ` set r1 \<subseteq> rule_key ` set r2"
proof
  let ?steps = "\<lambda>walk. concat (map (\<lambda>(sAC, k). map (make_rule (frequent d) (6 / 5) sAC)
                                          (candidate_splits walk k)) (frequent d))"
  fix y assume "y \<in> rule_key ` set r1"
  then obtain r where r: "r \<in> set r1" "y = rule_key r" by auto
  have c1: "collect (?steps walk1) = Inr r1" and c2: "collect (?steps walk2) = Inr r2"
    using assms(3,4) by (simp_all add: rules_def association_rules_def split: if_splits)
  obtain zs where zs: "Inr zs \<in> set (?steps walk1)" "r \<in> set zs"
    using collect_Inr_member [OF c1 r(1)] by blast
  have "map_sum id (map rule_key) (Inr zs) \<in> map_sum id (map rule_key) ` set (?steps walk1)"
    using zs(1) by (rule imageI)
  then have "Inr (map rule_key zs) \<in> map_sum id (map rule_key) ` set (?steps walk2)"
    using steps_keys [OF assms(1,2), of "frequent d" "6 / 5"] by simp
  then obtain zs' where zs': "Inr zs' \<in> set (?steps walk2)" "map rule_key zs' = map rule_key zs"
    using image_key_Inr by blast
  have "y \<in> rule_key ` set zs'"
    using r(2) zs(2) zs'(2) by (metis image_eqI set_map)
  moreover have "set zs' \<subseteq> set r2"
    using c2 zs'(1) by (rule collect_Inr_subset)
  ultimately show "y \<in> rule_key ` set r2" by auto
qed

lemma ticket_moyen_Inr: "\<exists>t. ticket_moyen d = Inr t"
  by (simp add: ticket_moyen_def py_div_def)

lemma update_dashboard_returns:
  assumes "panier_table walk (df_filtered ss ms df) = Inr t"
  shows "\<exists>out. update_dashboard walk ss ms df = Inr out"
proof -
  obtain ticket where "ticket_moyen (df_filtered ss ms df) = Inr ticket"
    using ticket_moyen_Inr by blast
  then show ?thesis
    by (simp add: update_dashboard_def assms)
qed

lemma update_dashboard_error:
  "update_dashboard walk ss ms df = Inl e \<longleftrightarrow> rules walk (df_filtered ss ms df) = Inl e"
  using ticket_moyen_Inr [of "df_filtered ss ms df"]
  by (auto simp: update_dashboard_def panier_table_def split: sum.splits)

text \<open>
  C9, as amended. The callback is a function of the loaded table, the selection and the
  order in which the process walks its hash sets, and that order matters only for the
  rule table. For any two walk orders: the callback fails under one exactly when it
  fails under the other, with the same error; when it returns, the indicators, the month
  series, the weekday series, the heat map and the product ranking are the same; and the
  rules generated before the first ten are kept are the same rules, as pairs of sets of
  names with their support, confidence and lift. The order of the rules that come from
  one itemset, the order of the names inside a side of a rule, and with them which rules
  are among the first ten, follow the walk order.
\<close>

theorem update_dashboard_walk_order:
  assumes "\<forall>s. mset (walk1 s) = mset s" "\<forall>s. mset (walk2 s) = mset s"
  shows "(\<forall>e. update_dashboard walk1 ss ms df = Inl e
              \<longleftrightarrow> update_dashboard walk2 ss ms df = Inl e)
   \<and> (\<forall>o1 o2. update_dashboard walk1 ss ms df = Inr o1
              \<and> update_dashboard walk2 ss ms df = Inr o2 \<longrightarrow>
          kpis o1 = kpis o2 \<and> fig_mois o1 = fig_mois o2 \<and> fig_jour o1 = fig_jour o2
          \<and> fig_heatmap o1 = fig_heatmap o2 \<and> fig_top o1 = fig_top o2)
   \<and> (\<forall>r1 r2. rules walk1 (df_filtered ss ms df) = Inr r1
              \<and> rules walk2 (df_filtered ss ms df) = Inr r2 \<longrightarrow>
          rule_key ` set r1 = rule_key ` set r2)"
proof -
  have errors: "update_dashboard walk1 ss ms df = Inl e
              \<longleftrightarrow> update_dashboard walk2 ss ms df = Inl e" for e
    unfolding update_dashboard_error
    using rules_error_walk [OF assms] rules_error_walk [OF assms(2) assms(1)] by blast
  have figures: "kpis o1 = kpis o2 \<and> fig_mois o1 = fig_mois o2 \<and> fig_jour o1 = fig_jour o2
          \<and> fig_heatmap o1 = fig_heatmap o2 \<and> fig_top o1 = fig_top o2"
    if "update_dashboard walk1 ss ms df = Inr o1" "update_dashboard walk2 ss ms df = Inr o2"
    for o1 o2
    using that by (auto simp: update_dashboard_def split: sum.splits)
  have keys: "rule_key ` set r1 = rule_key ` set r2"
    if "rules walk1 (df_filtered ss ms df) = Inr r1" "rules walk2 (df_filtered ss ms df) = Inr r2"
    for r1 r2
    using rules_keys_subset [OF assms that] rules_keys_subset [OF assms(2) assms(1) that(2) that(1)]
    by blast
  show ?thesis
    using errors figures keys by blast
qed


theorem update_dashboard_walk_order_witness:
  "(\<forall>s :: string list. mset (id s) = mset s) \<and> (\<forall>s :: string list. mset (rev s) = mset s)
   \<and> map_sum id (\<lambda>rs. rule_key ` set rs) (rules id ex_rules)
     = map_sum id (\<lambda>rs. rule_key ` set rs) (rules rev ex_rules)
   \<and> map_sum id fig_top (update_dashboard id [''Astoria''] [''2023-01''] ex_rules)
     = map_sum id fig_top (update_dashboard rev [''Astoria''] [''2023-01''] ex_rules)"
proof -
  have p1: "\<forall>s :: string list. mset (id s) = mset s" and p2: "\<forall>s :: string list. mset (rev s) = mset s"
    by simp_all
  note inst = update_dashboard_walk_order [OF p1 p2, of "[''Astoria'']" "[''2023-01'']" ex_rules]
  obtain r1 r2 where r: "rules id ex_rules = Inr r1" "rules rev ex_rules = Inr r2"
    using ex_rules_rules_id ex_rules_rules_rev by blast
  then have keys: "rule_key ` set r1 = rule_key ` set r2"
    using inst unfolding ex_rules_selected by blast
  obtain o1 where o1: "update_dashboard id [''Astoria''] [''2023-01''] ex_rules = Inr o1"
    using update_dashboard_returns [of id "[''Astoria'']" "[''2023-01'']" ex_rules]
      ex_rules_table_id unfolding ex_rules_selected by blast
  obtain o2 where o2: "update_dashboard rev [''Astoria''] [''2023-01''] ex_rules = Inr o2"
    using update_dashboard_returns [of rev "[''Astoria'']" "[''2023-01'']" ex_rules]
      ex_rules_table_rev unfolding ex_rules_selected by blast
  note o = o1 o2
  have "fig_top o1 = fig_top o2"
    using inst o by blast
  with keys show ?thesis
    by (simp add: r o)
qed

text \<open>
  C9 as stated fails: on the same table and the same selection, a process that walks its
  hash sets in ascending order and one that walks them in descending order return
  different rule tables.
\<close>

theorem rule_table_walk_dependent:
  "map_sum id (map antecedents \<circ> panier) (update_dashboard id [''Astoria''] [''2023-01''] ex_rules)
     = Inr [[''A''], [''B''], [''C''], [''D'']]
   \<and> map_sum id (map antecedents \<circ> panier) (update_dashboard rev [''Astoria''] [''2023-01''] ex_rules)
     = Inr [[''B''], [''A''], [''D''], [''C'']]
   \<and> update_dashboard id [''Astoria''] [''2023-01''] ex_rules
     \<noteq> update_dashboard rev [''Astoria''] [''2023-01''] ex_rules"
proof -
  have a: "map_sum id (map antecedents \<circ> panier) (update_dashboard id [''Astoria''] [''2023-01''] ex_rules)
     = Inr [[''A''], [''B''], [''C''], [''D'']]"
    by (simp add: update_dashboard_def ex_rules_selected ex_rules_table_id
        ticket_moyen_def py_div_def)
  have b: "map_sum id (map antecedents \<circ> panier) (update_dashboard rev [''Astoria''] [''2023-01''] ex_rules)
     = Inr [[''B''], [''A''], [''D''], [''C'']]"
    by (simp add: update_dashboard_def ex_rules_selected ex_rules_table_rev
        ticket_moyen_def py_div_def)
  have "update_dashboard id [''Astoria''] [''2023-01''] ex_rules
     \<noteq> update_dashboard rev [''Astoria''] [''2023-01''] ex_rules"
  proof
    assume "update_dashboard id [''Astoria''] [''2023-01''] ex_rules
      = update_dashboard rev [''Astoria''] [''2023-01''] ex_rules"
    with a b have "(Inr [[''A''], [''B''], [''C''], [''D'']] :: error + string list list)
      = Inr [[''B''], [''A''], [''D''], [''C'']]"
      by simp
    then show False by simp
  qed
  with a b show ?thesis by simp
qed

end
